theory Spec2Isabelle
  imports Main "HOL-Library.Sublist"
begin

section \<open>The morphism composer of \<^verbatim>\<open>MorphismComposer.tsx\<close>\<close>

text \<open>
  Strings of the source are modelled as \<^typ>\<open>string\<close>. The two non-ASCII signs used
  by the source's template literals are written as their UTF-8 bytes; only
  concatenation and equality of strings are ever used by the code.
\<close>

definition ring :: string where
  \<comment> \<open>the composition sign U+2218\<close>
  "ring = [CHR 0xE2, CHR 0x88, CHR 0x98]"

definition neq_sign :: string where
  \<comment> \<open>the not-equal sign U+2260\<close>
  "neq_sign = [CHR 0xE2, CHR 0x89, CHR 0xA0]"

subsection \<open>Data\<close>

text \<open>\<^verbatim>\<open>interface Morphism { id; label; source; target }\<close>\<close>

record Morphism =
  id_m :: string
  label :: string
  source :: string
  target :: string

definition initialMorphisms :: "Morphism list" where
  "initialMorphisms =
    [\<lparr>id_m = ''f'', label = ''f'', source = ''A'', target = ''B''\<rparr>,
     \<lparr>id_m = ''g'', label = ''g'', source = ''B'', target = ''C''\<rparr>,
     \<lparr>id_m = ''h'', label = ''h'', source = ''C'', target = ''D''\<rparr>,
     \<lparr>id_m = ''k'', label = ''k'', source = ''A'', target = ''C''\<rparr>]"

text \<open>
  The component's state cells that the two handlers read or write:
  \<^verbatim>\<open>morphisms\<close> (here \<open>morphisms_l\<close>), \<^verbatim>\<open>selected\<close>, \<^verbatim>\<open>composition\<close>, \<^verbatim>\<open>error\<close>,
  \<^verbatim>\<open>isNewComposition\<close>.
\<close>

record composer =
  morphisms_l :: "Morphism list"
  selected :: "string list"
  composition :: "Morphism option"
  error :: "string option"
  isNewComposition :: bool

definition initialState :: composer where
  "initialState =
    \<lparr>morphisms_l = initialMorphisms, selected = [], composition = None,
     error = None, isNewComposition = False\<rparr>"

text \<open>Reading a property of \<^verbatim>\<open>undefined\<close> throws.\<close>

datatype exn = TypeError

subsection \<open>Operations\<close>

definition canCompose :: "Morphism \<Rightarrow> Morphism \<Rightarrow> bool" where
  "canCompose m1 m2 = (target m1 = source m2)"

definition compose :: "Morphism \<Rightarrow> Morphism \<Rightarrow> Morphism option" where
  "compose m1 m2 =
    (if \<not> canCompose m1 m2 then None
     else Some \<lparr>id_m = id_m m2 @ ring @ id_m m1,
                label = label m2 @ ring @ label m1,
                source = source m1,
                target = target m2\<rparr>)"

text \<open>\<^verbatim>\<open>morphisms.find(m => m.id === x)\<close>\<close>

definition findMorphism :: "Morphism list \<Rightarrow> string \<Rightarrow> Morphism option" where
  "findMorphism ms x = find (\<lambda>m. id_m m = x) ms"

definition errorText :: "Morphism \<Rightarrow> Morphism \<Rightarrow> string" where
  "errorText m1 m2 =
    ''Cannot compose: '' @ label m1 @ '' and '' @ label m2 @
    '' are not composable (target '' @ neq_sign @ '' source)''"

text \<open>
  \<^verbatim>\<open>handleSelectMorphism\<close>. The handler reads the state of the current render and
  queues writes; the state after the call holds, for each cell, the last value written.
  In the branch for one selected id both lookups are used unchecked, so an id that is
  not in \<^verbatim>\<open>morphisms\<close> makes \<^verbatim>\<open>canCompose\<close> throw before any further write.
\<close>

definition handleSelectMorphism :: "composer \<Rightarrow> string \<Rightarrow> exn + composer" where
  "handleSelectMorphism s morphismId =
    (let s0 = s\<lparr>error := None, isNewComposition := False\<rparr> in
     if morphismId \<in> set (selected s) then
       Inr (s0\<lparr>selected := filter (\<lambda>i. i \<noteq> morphismId) (selected s),
               composition := None\<rparr>)
     else if length (selected s) = 0 then
       Inr (s0\<lparr>selected := [morphismId], composition := None\<rparr>)
     else if length (selected s) = 1 then
       (case (findMorphism (morphisms_l s) (selected s ! 0),
              findMorphism (morphisms_l s) morphismId) of
          (Some m1, Some m2) \<Rightarrow>
            (case compose m1 m2 of
               Some cmp \<Rightarrow>
                 Inr (s0\<lparr>selected := [selected s ! 0, morphismId],
                         composition := Some cmp, isNewComposition := True\<rparr>)
             | None \<Rightarrow>
                 (case compose m2 m1 of
                    Some cmp \<Rightarrow>
                      Inr (s0\<lparr>selected := [morphismId, selected s ! 0],
                              composition := Some cmp, isNewComposition := True\<rparr>)
                  | None \<Rightarrow>
                      Inr (s0\<lparr>error := Some (errorText m1 m2),
                              selected := [morphismId]\<rparr>)))
        | _ \<Rightarrow> Inl TypeError)
     else
       Inr (s0\<lparr>selected := [morphismId], composition := None\<rparr>))"

definition clearSelection :: "composer \<Rightarrow> composer" where
  "clearSelection s =
    s\<lparr>selected := [], composition := None, error := None, isNewComposition := False\<rparr>"

subsection \<open>Sequences of user actions\<close>

text \<open>
  The presentation layer calls the two handlers one after the other, each on the state
  the previous call left.
\<close>

datatype event = Select string | Clear

fun step :: "composer \<Rightarrow> event \<Rightarrow> exn + composer" where
  "step s (Select i) = handleSelectMorphism s i"
| "step s Clear = Inr (clearSelection s)"

fun run :: "composer \<Rightarrow> event list \<Rightarrow> exn + composer" where
  "run s [] = Inr s"
| "run s (e # es) = (case step s e of Inl x \<Rightarrow> Inl x | Inr s' \<Rightarrow> run s' es)"

text \<open>The buttons and arrows of the diagram only offer the ids of \<^verbatim>\<open>morphisms\<close>.\<close>

fun catalogEvent :: "Morphism list \<Rightarrow> event \<Rightarrow> bool" where
  "catalogEvent ms (Select i) = (i \<in> set (map id_m ms))"
| "catalogEvent ms Clear = True"

subsection \<open>The invariant of the reachable states\<close>

text \<open>
  With nothing or one id selected there is no composite; two selected ids are different,
  both are found in \<^verbatim>\<open>morphisms\<close>, they compose in the order in which they are
  stored, and the composite is their composition.
\<close>

definition wellFormed :: "composer \<Rightarrow> bool" where
  "wellFormed s =
    (morphisms_l s = initialMorphisms \<and>
     (case selected s of
        [] \<Rightarrow> composition s = None
      | [a] \<Rightarrow> findMorphism (morphisms_l s) a \<noteq> None \<and> composition s = None
      | [a, b] \<Rightarrow>
          a \<noteq> b \<and>
          (case (findMorphism (morphisms_l s) a, findMorphism (morphisms_l s) b) of
             (Some m1, Some m2) \<Rightarrow> canCompose m1 m2 \<and> composition s = compose m1 m2
           | _ \<Rightarrow> False)
      | _ \<Rightarrow> False))"

text \<open>
  A composite's id contains the composition sign, which no id of
  \<^verbatim>\<open>initialMorphisms\<close> does.
\<close>

definition compositeMarked :: "composer \<Rightarrow> bool" where
  "compositeMarked s =
    (case composition s of None \<Rightarrow> True | Some c \<Rightarrow> set ring \<subseteq> set (id_m c))"

section \<open>The pure functions\<close>

text \<open>
  C6: \<^verbatim>\<open>canCompose(m1, m2)\<close> is true exactly when the target of \<^verbatim>\<open>m1\<close> is the
  source of \<^verbatim>\<open>m2\<close>, and \<^verbatim>\<open>compose(m1, m2)\<close> gives a morphism exactly then, whatever
  the reverse order would give.
\<close>

theorem canCompose_iff:
  "canCompose m1 m2 = (target m1 = source m2) \<and>
   (compose m1 m2 \<noteq> None) = (target m1 = source m2)"
  by (simp add: canCompose_def compose_def)

text \<open>
  C5: when the target of \<^verbatim>\<open>m1\<close> is the source of \<^verbatim>\<open>m2\<close>, \<^verbatim>\<open>compose(m1, m2)\<close> is
  the morphism whose id and label are those of \<^verbatim>\<open>m2\<close>, the composition sign, those of
  \<^verbatim>\<open>m1\<close>, from the source of \<^verbatim>\<open>m1\<close> to the target of \<^verbatim>\<open>m2\<close>; otherwise it is absent.
\<close>

theorem compose_result:
  "(target m1 = source m2 \<longrightarrow>
      compose m1 m2 = Some \<lparr>id_m = id_m m2 @ ring @ id_m m1,
                             label = label m2 @ ring @ label m1,
                             source = source m1, target = target m2\<rparr>) \<and>
   (target m1 \<noteq> source m2 \<longrightarrow> compose m1 m2 = None)"
  by (simp add: canCompose_def compose_def)

theorem compose_result_witness:
  "compose \<lparr>id_m = ''f'', label = ''f'', source = ''A'', target = ''B''\<rparr>
           \<lparr>id_m = ''g'', label = ''g'', source = ''B'', target = ''C''\<rparr>
     = Some \<lparr>id_m = ''g'' @ ring @ ''f'', label = ''g'' @ ring @ ''f'',
             source = ''A'', target = ''C''\<rparr> \<and>
   compose \<lparr>id_m = ''g'', label = ''g'', source = ''B'', target = ''C''\<rparr>
           \<lparr>id_m = ''f'', label = ''f'', source = ''A'', target = ''B''\<rparr> = None"
  using compose_result
          [of "\<lparr>id_m = ''f'', label = ''f'', source = ''A'', target = ''B''\<rparr>"
              "\<lparr>id_m = ''g'', label = ''g'', source = ''B'', target = ''C''\<rparr>"]
        compose_result
          [of "\<lparr>id_m = ''g'', label = ''g'', source = ''B'', target = ''C''\<rparr>"
              "\<lparr>id_m = ''f'', label = ''f'', source = ''A'', target = ''B''\<rparr>"]
  by simp

section \<open>Single calls\<close>

text \<open>
  C8: from every state \<^verbatim>\<open>clearSelection()\<close> leaves no selection, no composite and no
  error, and a second call changes nothing.
\<close>

theorem clearSelection_idem:
  "selected (clearSelection s) = [] \<and>
   composition (clearSelection s) = None \<and>
   error (clearSelection s) = None \<and>
   clearSelection (clearSelection s) = clearSelection s"
  by (simp add: clearSelection_def)

text \<open>
  C7: when exactly the id \<^verbatim>\<open>x\<close> is selected, selecting \<^verbatim>\<open>x\<close> again returns without
  exception and leaves no selection, no composite and no error.
\<close>

theorem toggle_off:
  assumes "selected s = [x]"
  shows "handleSelectMorphism s x =
           Inr (s\<lparr>selected := [], composition := None, error := None,
                  isNewComposition := False\<rparr>)"
  using assms by (simp add: handleSelectMorphism_def)

theorem toggle_off_witness:
  "selected (initialState\<lparr>selected := [''f'']\<rparr>) = [''f''] \<and>
   handleSelectMorphism (initialState\<lparr>selected := [''f'']\<rparr>) ''f'' = Inr initialState"
  using toggle_off [of "initialState\<lparr>selected := [''f'']\<rparr>" "''f''"]
  by (simp add: initialState_def)

text \<open>
  C2: with \<^verbatim>\<open>a\<close> the only selection and a different morphism \<^verbatim>\<open>b\<close> clicked, the
  handler first tries \<^verbatim>\<open>a\<close> then \<^verbatim>\<open>b\<close>, which succeeds exactly when the target of
  \<^verbatim>\<open>a\<close> is the source of \<^verbatim>\<open>b\<close> (also when the other order would succeed too), and
  only otherwise \<^verbatim>\<open>b\<close> then \<^verbatim>\<open>a\<close>. When exactly one order is valid, clicking
  \<^verbatim>\<open>a\<close> then \<^verbatim>\<open>b\<close> and clicking \<^verbatim>\<open>b\<close> then \<^verbatim>\<open>a\<close> give the same composite and
  the same selection.
\<close>

theorem second_click_order:
  assumes "selected s = [aid]" and "bid \<noteq> aid"
    and "findMorphism (morphisms_l s) aid = Some a"
    and "findMorphism (morphisms_l s) bid = Some b"
  shows "(target a = source b \<longrightarrow>
            handleSelectMorphism s bid =
              Inr (s\<lparr>selected := [aid, bid], composition := compose a b,
                     error := None, isNewComposition := True\<rparr>) \<and>
            compose a b \<noteq> None) \<and>
         (target a \<noteq> source b \<and> target b = source a \<longrightarrow>
            handleSelectMorphism s bid =
              Inr (s\<lparr>selected := [bid, aid], composition := compose b a,
                     error := None, isNewComposition := True\<rparr>) \<and>
            compose b a \<noteq> None) \<and>
         (\<forall>t. selected t = [bid] \<and> morphisms_l t = morphisms_l s \<and>
               (target a = source b) \<noteq> (target b = source a) \<longrightarrow>
               (\<exists>s' t'. handleSelectMorphism s bid = Inr s' \<and>
                        handleSelectMorphism t aid = Inr t' \<and>
                        composition s' \<noteq> None \<and>
                        composition s' = composition t' \<and>
                        selected s' = selected t'))"
  using assms
  by (auto simp: handleSelectMorphism_def compose_def canCompose_def Let_def)

theorem second_click_order_witness:
  "handleSelectMorphism (initialState\<lparr>selected := [''g'']\<rparr>) ''f'' =
     Inr (initialState\<lparr>selected := [''f'', ''g''],
            composition := Some \<lparr>id_m = ''g'' @ ring @ ''f'', label = ''g'' @ ring @ ''f'',
                                  source = ''A'', target = ''C''\<rparr>,
            isNewComposition := True\<rparr>) \<and>
   handleSelectMorphism (initialState\<lparr>selected := [''f'']\<rparr>) ''g'' =
     Inr (initialState\<lparr>selected := [''f'', ''g''],
            composition := Some \<lparr>id_m = ''g'' @ ring @ ''f'', label = ''g'' @ ring @ ''f'',
                                  source = ''A'', target = ''C''\<rparr>,
            isNewComposition := True\<rparr>)"
proof -
  let ?f = "\<lparr>id_m = ''f'', label = ''f'', source = ''A'', target = ''B''\<rparr>"
  let ?g = "\<lparr>id_m = ''g'', label = ''g'', source = ''B'', target = ''C''\<rparr>"
  have sel_g: "selected (initialState\<lparr>selected := [''g'']\<rparr>) = [''g'']"
    and sel_f: "selected (initialState\<lparr>selected := [''f'']\<rparr>) = [''f'']"
    by simp_all
  have fg: "''f'' \<noteq> ''g''" and gf: "''g'' \<noteq> ''f''"
    by simp_all
  have find_g: "findMorphism (morphisms_l (initialState\<lparr>selected := [''g'']\<rparr>)) ''g'' = Some ?g"
    and find_f: "findMorphism (morphisms_l (initialState\<lparr>selected := [''g'']\<rparr>)) ''f'' = Some ?f"
    and find_g': "findMorphism (morphisms_l (initialState\<lparr>selected := [''f'']\<rparr>)) ''g'' = Some ?g"
    and find_f': "findMorphism (morphisms_l (initialState\<lparr>selected := [''f'']\<rparr>)) ''f'' = Some ?f"
    by (simp_all add: findMorphism_def initialState_def initialMorphisms_def)
  show ?thesis
    using second_click_order [OF sel_g fg find_g find_f]
          second_click_order [OF sel_f gf find_f' find_g']
    by (simp add: compose_def canCompose_def initialState_def)
qed

section \<open>Reachable states\<close>

lemma findMorphism_catalog:
  "i \<in> set (map id_m ms) \<Longrightarrow> \<exists>m. findMorphism ms i = Some m"
  unfolding findMorphism_def
  by (cases "find (\<lambda>m. id_m m = i) ms") (auto simp: find_None_iff)

lemma wellFormed_initial: "wellFormed initialState"
  by (simp add: wellFormed_def initialState_def)

lemma wellFormed_cases:
  assumes "wellFormed s"
  obtains
    (none) "selected s = []" "composition s = None"
  | (one) a m where "selected s = [a]" "findMorphism (morphisms_l s) a = Some m"
      "composition s = None"
  | (two) a b m1 m2 where "selected s = [a, b]" "a \<noteq> b"
      "findMorphism (morphisms_l s) a = Some m1" "findMorphism (morphisms_l s) b = Some m2"
      "canCompose m1 m2" "composition s = compose m1 m2"
  using assms unfolding wellFormed_def
  by (auto split: list.splits option.splits)

lemma wellFormed_clear: "wellFormed s \<Longrightarrow> wellFormed (clearSelection s)"
  by (simp add: wellFormed_def clearSelection_def)

lemma wellFormed_select:
  assumes wf: "wellFormed s" and cat: "i \<in> set (map id_m (morphisms_l s))"
  shows "\<exists>s'. handleSelectMorphism s i = Inr s' \<and> wellFormed s'"
proof -
  from cat obtain mi where mi: "findMorphism (morphisms_l s) i = Some mi"
    using findMorphism_catalog by blast
  have ms: "morphisms_l s = initialMorphisms"
    using wf by (simp add: wellFormed_def)
  from wf show ?thesis
  proof (cases rule: wellFormed_cases)
    case none
    then show ?thesis
      using mi ms by (simp add: handleSelectMorphism_def wellFormed_def Let_def)
  next
    case (one a m)
    then show ?thesis
      using mi ms
      by (auto simp: handleSelectMorphism_def wellFormed_def compose_def canCompose_def Let_def
               split: option.splits)
  next
    case (two a b m1 m2)
    then show ?thesis
      using mi ms
      by (auto simp: handleSelectMorphism_def wellFormed_def Let_def)
  qed
qed

lemma wellFormed_step:
  "wellFormed s \<Longrightarrow> catalogEvent initialMorphisms e \<Longrightarrow>
     \<exists>s'. step s e = Inr s' \<and> wellFormed s'"
proof (cases e)
  case (Select i)
  assume "wellFormed s" "catalogEvent initialMorphisms e"
  then show ?thesis
    using Select wellFormed_select [of s i] by (simp add: wellFormed_def)
next
  case Clear
  assume "wellFormed s"
  then show ?thesis using Clear by (simp add: wellFormed_clear)
qed

lemma wellFormed_run:
  "wellFormed s \<Longrightarrow> list_all (catalogEvent initialMorphisms) evs \<Longrightarrow>
     \<exists>s'. run s evs = Inr s' \<and> wellFormed s'"
proof (induction evs arbitrary: s)
  case Nil
  then show ?case by simp
next
  case (Cons e evs)
  then obtain s1 where s1: "step s e = Inr s1" "wellFormed s1"
    using wellFormed_step [of s e] by auto
  with Cons.IH [of s1] Cons.prems show ?case by simp
qed

lemma run_total:
  "list_all (catalogEvent initialMorphisms) evs \<Longrightarrow> \<exists>s. run initialState evs = Inr s"
  using wellFormed_run [OF wellFormed_initial] by blast

lemma reachable_wellFormed:
  "list_all (catalogEvent initialMorphisms) evs \<Longrightarrow> run initialState evs = Inr s \<Longrightarrow>
     wellFormed s"
  using wellFormed_run [OF wellFormed_initial, of evs] by auto

subsection \<open>The catalog and the composite\<close>

lemma handleSelectMorphism_frame:
  "handleSelectMorphism s i = Inr s' \<Longrightarrow> morphisms_l s' = morphisms_l s"
  by (auto simp: handleSelectMorphism_def Let_def split: if_splits option.splits)

lemma handleSelectMorphism_marked:
  "handleSelectMorphism s i = Inr s' \<Longrightarrow> compositeMarked s \<Longrightarrow> compositeMarked s'"
  by (auto simp: handleSelectMorphism_def Let_def compose_def compositeMarked_def
           split: if_splits option.splits)

lemma step_frame_marked:
  "step s e = Inr s' \<Longrightarrow> compositeMarked s \<Longrightarrow>
     morphisms_l s' = morphisms_l s \<and> compositeMarked s'"
  by (cases e)
     (auto simp: clearSelection_def compositeMarked_def
           dest: handleSelectMorphism_frame handleSelectMorphism_marked)

lemma run_frame_marked:
  "run s evs = Inr s' \<Longrightarrow> compositeMarked s \<Longrightarrow>
     morphisms_l s' = morphisms_l s \<and> compositeMarked s'"
proof (induction evs arbitrary: s)
  case Nil
  then show ?case by simp
next
  case (Cons e evs)
  from Cons.prems(1) obtain s1 where s1: "step s e = Inr s1" and rest: "run s1 evs = Inr s'"
    by (auto split: sum.splits)
  from step_frame_marked [OF s1 Cons.prems(2)] Cons.IH [OF rest]
  show ?case by simp
qed

lemma catalog_ids_plain: "m \<in> set initialMorphisms \<Longrightarrow> \<not> set ring \<subseteq> set (id_m m)"
  by (auto simp: initialMorphisms_def ring_def)

section \<open>Properties of the reachable states\<close>

text \<open>
  C3: in a reachable state with the single selection \<^verbatim>\<open>a\<close>, clicking a different
  morphism \<^verbatim>\<open>b\<close> that composes with \<^verbatim>\<open>a\<close> in neither order returns without
  exception, leaves \<^verbatim>\<open>b\<close> as the only selection, no composite, and an error text
  that contains both labels.
\<close>

theorem not_composable_error:
  assumes "list_all (catalogEvent initialMorphisms) evs"
    and "run initialState evs = Inr s"
    and "selected s = [aid]" and "bid \<noteq> aid"
    and "findMorphism (morphisms_l s) aid = Some a"
    and "findMorphism (morphisms_l s) bid = Some b"
    and "target a \<noteq> source b" and "target b \<noteq> source a"
  shows "handleSelectMorphism s bid =
           Inr (s\<lparr>selected := [bid], composition := None,
                  error := Some (errorText a b), isNewComposition := False\<rparr>) \<and>
         sublist (label a) (errorText a b) \<and> sublist (label b) (errorText a b)"
proof -
  have "wellFormed s"
    using assms(1,2) by (rule reachable_wellFormed)
  with \<open>selected s = [aid]\<close> have none: "composition s = None"
    by (simp add: wellFormed_def)
  have "handleSelectMorphism s bid =
          Inr (s\<lparr>selected := [bid], composition := None,
                 error := Some (errorText a b), isNewComposition := False\<rparr>)"
    using assms(3-8) none
    by (simp add: handleSelectMorphism_def compose_def canCompose_def Let_def)
  moreover have "sublist (label a) (errorText a b)"
    unfolding errorText_def sublist_def by (metis append.assoc)
  moreover have "sublist (label b) (errorText a b)"
    unfolding errorText_def sublist_def by (metis append.assoc)
  ultimately show ?thesis by simp
qed

theorem not_composable_error_witness:
  "list_all (catalogEvent initialMorphisms) [Select ''f''] \<and>
   run initialState [Select ''f''] = Inr (initialState\<lparr>selected := [''f'']\<rparr>) \<and>
   handleSelectMorphism (initialState\<lparr>selected := [''f'']\<rparr>) ''h'' =
     Inr (initialState\<lparr>selected := [''h''],
            error := Some (''Cannot compose: f and h are not composable (target '' @
                           neq_sign @ '' source)'')\<rparr>)"
proof -
  let ?f = "\<lparr>id_m = ''f'', label = ''f'', source = ''A'', target = ''B''\<rparr>"
  let ?h = "\<lparr>id_m = ''h'', label = ''h'', source = ''C'', target = ''D''\<rparr>"
  let ?s = "initialState\<lparr>selected := [''f'']\<rparr>"
  have evs: "list_all (catalogEvent initialMorphisms) [Select ''f'']"
    by (simp add: initialMorphisms_def)
  have run: "run initialState [Select ''f''] = Inr ?s"
    by (simp add: handleSelectMorphism_def initialState_def)
  have sel: "selected ?s = [''f'']" and hf: "''h'' \<noteq> ''f''"
    by simp_all
  have find_f: "findMorphism (morphisms_l ?s) ''f'' = Some ?f"
    and find_h: "findMorphism (morphisms_l ?s) ''h'' = Some ?h"
    by (simp_all add: findMorphism_def initialState_def initialMorphisms_def)
  have no_fh: "target ?f \<noteq> source ?h" and no_hf: "target ?h \<noteq> source ?f"
    by simp_all
  have res: "handleSelectMorphism ?s ''h'' =
     Inr (initialState\<lparr>selected := [''h''],
            error := Some (''Cannot compose: f and h are not composable (target '' @
                           neq_sign @ '' source)'')\<rparr>)"
    using not_composable_error [OF evs run sel hf find_f find_h no_fh no_hf]
    by (simp add: errorText_def initialState_def)
  show ?thesis
    by (intro conjI evs run res)
qed

text \<open>
  C1, as stated, fails: after selecting \<^verbatim>\<open>f\<close> and \<^verbatim>\<open>g\<close> the selection is
  \<^verbatim>\<open>[f, g]\<close>, and selecting \<^verbatim>\<open>f\<close> again takes the deselect branch and leaves
  \<^verbatim>\<open>[g]\<close>, not \<^verbatim>\<open>[f]\<close>.
\<close>

theorem third_click_counterexample:
  "list_all (catalogEvent initialMorphisms) [Select ''f'', Select ''g''] \<and>
   run initialState [Select ''f'', Select ''g''] =
     Inr \<lparr>morphisms_l = initialMorphisms, selected = [''f'', ''g''],
          composition = Some \<lparr>id_m = ''g'' @ ring @ ''f'', label = ''g'' @ ring @ ''f'',
                               source = ''A'', target = ''C''\<rparr>,
          error = None, isNewComposition = True\<rparr> \<and>
   ''f'' \<in> set (map id_m initialMorphisms) \<and>
   handleSelectMorphism
     \<lparr>morphisms_l = initialMorphisms, selected = [''f'', ''g''],
      composition = Some \<lparr>id_m = ''g'' @ ring @ ''f'', label = ''g'' @ ring @ ''f'',
                           source = ''A'', target = ''C''\<rparr>,
      error = None, isNewComposition = True\<rparr> ''f'' =
     Inr \<lparr>morphisms_l = initialMorphisms, selected = [''g''], composition = None,
          error = None, isNewComposition = False\<rparr> \<and>
   [''g''] \<noteq> [''f'']"
  by (simp add: initialState_def initialMorphisms_def handleSelectMorphism_def
        findMorphism_def compose_def canCompose_def)

text \<open>
  C1, amended: in every reachable state with two selected ids \<^verbatim>\<open>x\<close> and \<^verbatim>\<open>y\<close>, the
  two are different, and selecting any id \<^verbatim>\<open>z\<close> returns without exception with no
  composite and no error; the selection is \<^verbatim>\<open>[z]\<close> when \<^verbatim>\<open>z\<close> is neither of the two,
  and the other of the two ids when \<^verbatim>\<open>z\<close> is one of them.
\<close>

theorem third_click:
  assumes "list_all (catalogEvent initialMorphisms) evs"
    and "run initialState evs = Inr s"
    and "selected s = [x, y]"
  shows "x \<noteq> y \<and>
         handleSelectMorphism s z =
           Inr (s\<lparr>selected := (if z = x then [y] else if z = y then [x] else [z]),
                  composition := None, error := None, isNewComposition := False\<rparr>)"
proof -
  have "wellFormed s"
    using assms(1,2) by (rule reachable_wellFormed)
  with \<open>selected s = [x, y]\<close> have "x \<noteq> y"
    by (simp add: wellFormed_def)
  then show ?thesis
    using \<open>selected s = [x, y]\<close> by (auto simp: handleSelectMorphism_def)
qed

theorem third_click_witness:
  "list_all (catalogEvent initialMorphisms) [Select ''f'', Select ''g''] \<and>
   handleSelectMorphism
     \<lparr>morphisms_l = initialMorphisms, selected = [''f'', ''g''],
      composition = Some \<lparr>id_m = ''g'' @ ring @ ''f'', label = ''g'' @ ring @ ''f'',
                           source = ''A'', target = ''C''\<rparr>,
      error = None, isNewComposition = True\<rparr> ''h'' =
     Inr \<lparr>morphisms_l = initialMorphisms, selected = [''h''], composition = None,
          error = None, isNewComposition = False\<rparr>"
proof -
  let ?s = "\<lparr>morphisms_l = initialMorphisms, selected = [''f'', ''g''],
      composition = Some \<lparr>id_m = ''g'' @ ring @ ''f'', label = ''g'' @ ring @ ''f'',
                           source = ''A'', target = ''C''\<rparr>,
      error = None, isNewComposition = True\<rparr>"
  have evs: "list_all (catalogEvent initialMorphisms) [Select ''f'', Select ''g'']"
    by (simp add: initialMorphisms_def)
  have run: "run initialState [Select ''f'', Select ''g''] = Inr ?s"
    by (simp add: initialState_def initialMorphisms_def handleSelectMorphism_def
          findMorphism_def compose_def canCompose_def)
  have sel: "selected ?s = [''f'', ''g'']"
    by simp
  have res: "handleSelectMorphism ?s ''h'' =
     Inr \<lparr>morphisms_l = initialMorphisms, selected = [''h''], composition = None,
          error = None, isNewComposition = False\<rparr>"
    using third_click [OF evs run sel, of "''h''"] by simp
  show ?thesis
    by (intro conjI evs res)
qed

text \<open>
  C4: in every state reached from the initial state by selecting catalog ids and
  clearing, a composite is present exactly when two ids are selected and the two
  morphisms they name compose in at least one order.
\<close>

theorem composite_iff:
  assumes "list_all (catalogEvent initialMorphisms) evs"
    and "run initialState evs = Inr s"
  shows "(composition s \<noteq> None) =
         (\<exists>a b m1 m2. selected s = [a, b] \<and>
            findMorphism (morphisms_l s) a = Some m1 \<and>
            findMorphism (morphisms_l s) b = Some m2 \<and>
            (canCompose m1 m2 \<or> canCompose m2 m1))"
proof -
  have "wellFormed s"
    using assms by (rule reachable_wellFormed)
  then show ?thesis
  proof (cases rule: wellFormed_cases)
    case none
    then show ?thesis by simp
  next
    case (one a m)
    then show ?thesis by simp
  next
    case (two a b m1 m2)
    then show ?thesis by (auto simp: compose_def)
  qed
qed

theorem composite_iff_witness:
  "list_all (catalogEvent initialMorphisms) [Select ''f'', Select ''g''] \<and>
   run initialState [Select ''f'', Select ''g''] =
     Inr \<lparr>morphisms_l = initialMorphisms, selected = [''f'', ''g''],
          composition = Some \<lparr>id_m = ''g'' @ ring @ ''f'', label = ''g'' @ ring @ ''f'',
                               source = ''A'', target = ''C''\<rparr>,
          error = None, isNewComposition = True\<rparr> \<and>
   findMorphism initialMorphisms ''f'' =
     Some \<lparr>id_m = ''f'', label = ''f'', source = ''A'', target = ''B''\<rparr> \<and>
   findMorphism initialMorphisms ''g'' =
     Some \<lparr>id_m = ''g'', label = ''g'', source = ''B'', target = ''C''\<rparr> \<and>
   canCompose \<lparr>id_m = ''f'', label = ''f'', source = ''A'', target = ''B''\<rparr>
              \<lparr>id_m = ''g'', label = ''g'', source = ''B'', target = ''C''\<rparr> \<and>
   composition
     \<lparr>morphisms_l = initialMorphisms, selected = [''f'', ''g''],
      composition = Some \<lparr>id_m = ''g'' @ ring @ ''f'', label = ''g'' @ ring @ ''f'',
                           source = ''A'', target = ''C''\<rparr>,
      error = None, isNewComposition = True\<rparr> \<noteq> None"
proof -
  let ?s = "\<lparr>morphisms_l = initialMorphisms, selected = [''f'', ''g''],
      composition = Some \<lparr>id_m = ''g'' @ ring @ ''f'', label = ''g'' @ ring @ ''f'',
                           source = ''A'', target = ''C''\<rparr>,
      error = None, isNewComposition = True\<rparr>"
  let ?f = "\<lparr>id_m = ''f'', label = ''f'', source = ''A'', target = ''B''\<rparr>"
  let ?g = "\<lparr>id_m = ''g'', label = ''g'', source = ''B'', target = ''C''\<rparr>"
  have evs: "list_all (catalogEvent initialMorphisms) [Select ''f'', Select ''g'']"
    by (simp add: initialMorphisms_def)
  have run: "run initialState [Select ''f'', Select ''g''] = Inr ?s"
    by (simp add: initialState_def initialMorphisms_def handleSelectMorphism_def
          findMorphism_def compose_def canCompose_def)
  have ff: "findMorphism initialMorphisms ''f'' = Some ?f"
    and fg: "findMorphism initialMorphisms ''g'' = Some ?g"
    by (simp_all add: findMorphism_def initialMorphisms_def)
  have cc: "canCompose ?f ?g"
    by (simp add: canCompose_def)
  have "selected ?s = [''f'', ''g''] \<and>
        findMorphism (morphisms_l ?s) ''f'' = Some ?f \<and>
        findMorphism (morphisms_l ?s) ''g'' = Some ?g \<and>
        (canCompose ?f ?g \<or> canCompose ?g ?f)"
    using ff fg cc by simp
  then have "\<exists>a b m1 m2. selected ?s = [a, b] \<and>
        findMorphism (morphisms_l ?s) a = Some m1 \<and>
        findMorphism (morphisms_l ?s) b = Some m2 \<and>
        (canCompose m1 m2 \<or> canCompose m2 m1)"
    by blast
  with composite_iff [OF evs run] have present: "composition ?s \<noteq> None"
    by (rule iffD2)
  show ?thesis
    by (intro conjI evs run ff fg cc present)
qed

text \<open>
  C9: in every reachable state at most two ids are selected, and neither
  \<^verbatim>\<open>clearSelection\<close> nor \<^verbatim>\<open>handleSelectMorphism\<close> with any id leads from it to a
  selection of more than two ids.
\<close>

theorem selection_at_most_two:
  assumes "list_all (catalogEvent initialMorphisms) evs"
    and "run initialState evs = Inr s"
  shows "length (selected s) \<le> 2 \<and>
         length (selected (clearSelection s)) \<le> 2 \<and>
         (\<forall>i s'. handleSelectMorphism s i = Inr s' \<longrightarrow> length (selected s') \<le> 2)"
proof -
  have "wellFormed s"
    using assms by (rule reachable_wellFormed)
  then have len: "length (selected s) \<le> 2"
    by (cases rule: wellFormed_cases) simp_all
  have "length (selected s') \<le> 2" if "handleSelectMorphism s i = Inr s'" for i s'
  proof -
    have "length (filter (\<lambda>j. j \<noteq> i) (selected s)) \<le> 2"
      using len length_filter_le [of "\<lambda>j. j \<noteq> i" "selected s"] by linarith
    then show ?thesis
      using that
      by (auto simp: handleSelectMorphism_def Let_def split: if_splits option.splits)
  qed
  then show ?thesis
    using len by (simp add: clearSelection_def)
qed

theorem selection_at_most_two_witness:
  "list_all (catalogEvent initialMorphisms) [Select ''f'', Select ''g''] \<and>
   run initialState [Select ''f'', Select ''g''] =
     Inr \<lparr>morphisms_l = initialMorphisms, selected = [''f'', ''g''],
          composition = Some \<lparr>id_m = ''g'' @ ring @ ''f'', label = ''g'' @ ring @ ''f'',
                               source = ''A'', target = ''C''\<rparr>,
          error = None, isNewComposition = True\<rparr> \<and>
   length [''f'', ''g''] \<le> 2 \<and>
   handleSelectMorphism
     \<lparr>morphisms_l = initialMorphisms, selected = [''f'', ''g''],
      composition = Some \<lparr>id_m = ''g'' @ ring @ ''f'', label = ''g'' @ ring @ ''f'',
                           source = ''A'', target = ''C''\<rparr>,
      error = None, isNewComposition = True\<rparr> ''h'' =
     Inr \<lparr>morphisms_l = initialMorphisms, selected = [''h''], composition = None,
          error = None, isNewComposition = False\<rparr> \<and>
   length [''h''] \<le> 2"
proof -
  let ?s = "\<lparr>morphisms_l = initialMorphisms, selected = [''f'', ''g''],
      composition = Some \<lparr>id_m = ''g'' @ ring @ ''f'', label = ''g'' @ ring @ ''f'',
                           source = ''A'', target = ''C''\<rparr>,
      error = None, isNewComposition = True\<rparr>"
  let ?s' = "\<lparr>morphisms_l = initialMorphisms, selected = [''h''], composition = None,
          error = None, isNewComposition = False\<rparr>"
  have evs: "list_all (catalogEvent initialMorphisms) [Select ''f'', Select ''g'']"
    by (simp add: initialMorphisms_def)
  have run: "run initialState [Select ''f'', Select ''g''] = Inr ?s"
    by (simp add: initialState_def initialMorphisms_def handleSelectMorphism_def
          findMorphism_def compose_def canCompose_def)
  have click: "handleSelectMorphism ?s ''h'' = Inr ?s'"
    by (simp add: handleSelectMorphism_def)
  note bound = selection_at_most_two [OF evs run]
  from bound have "length (selected ?s) \<le> 2"
    by (rule conjunct1)
  then have len: "length [''f'', ''g''] \<le> 2"
    by simp
  from bound click have "length (selected ?s') \<le> 2"
    by blast
  then have len': "length [''h''] \<le> 2"
    by simp
  show ?thesis
    by (intro conjI evs run len click len')
qed

text \<open>
  C10: after every sequence of calls that returns, \<^verbatim>\<open>morphisms\<close> is still
  \<^verbatim>\<open>initialMorphisms\<close>, and a composite, when present, is not one of its elements
  and its id is not the id of any of them.
\<close>

theorem catalog_unchanged:
  assumes "run initialState evs = Inr s"
  shows "morphisms_l s = initialMorphisms \<and>
         (\<forall>c. composition s = Some c \<longrightarrow>
            c \<notin> set (morphisms_l s) \<and> id_m c \<notin> set (map id_m (morphisms_l s)))"
proof -
  have "compositeMarked initialState"
    by (simp add: compositeMarked_def initialState_def)
  with assms have ms: "morphisms_l s = morphisms_l initialState" and mk: "compositeMarked s"
    using run_frame_marked by blast+
  from ms have cat: "morphisms_l s = initialMorphisms"
    by (simp add: initialState_def)
  have "c \<notin> set (morphisms_l s) \<and> id_m c \<notin> set (map id_m (morphisms_l s))"
    if "composition s = Some c" for c
  proof -
    from mk that have "set ring \<subseteq> set (id_m c)"
      by (simp add: compositeMarked_def)
    then show ?thesis
      using catalog_ids_plain cat by auto
  qed
  with cat show ?thesis by blast
qed

theorem catalog_unchanged_witness:
  "run initialState [Select ''f'', Select ''g''] =
     Inr \<lparr>morphisms_l = initialMorphisms, selected = [''f'', ''g''],
          composition = Some \<lparr>id_m = ''g'' @ ring @ ''f'', label = ''g'' @ ring @ ''f'',
                               source = ''A'', target = ''C''\<rparr>,
          error = None, isNewComposition = True\<rparr> \<and>
   ''g'' @ ring @ ''f'' \<notin> set (map id_m initialMorphisms)"
proof -
  let ?c = "\<lparr>id_m = ''g'' @ ring @ ''f'', label = ''g'' @ ring @ ''f'',
                           source = ''A'', target = ''C''\<rparr>"
  let ?s = "\<lparr>morphisms_l = initialMorphisms, selected = [''f'', ''g''],
      composition = Some ?c, error = None, isNewComposition = True\<rparr>"
  have run: "run initialState [Select ''f'', Select ''g''] = Inr ?s"
    by (simp add: initialState_def initialMorphisms_def handleSelectMorphism_def
          findMorphism_def compose_def canCompose_def)
  have "composition ?s = Some ?c"
    by simp
  with catalog_unchanged [OF run]
  have "id_m ?c \<notin> set (map id_m (morphisms_l ?s))"
    by blast
  then have fresh: "''g'' @ ring @ ''f'' \<notin> set (map id_m initialMorphisms)"
    by simp
  show ?thesis
    by (intro conjI run fresh)
qed

end
